theory Spec2Isabelle
  imports Main
begin

section \<open>Python values, exceptions and the \<open>in\<close> test on strings\<close>

text \<open>
  The exceptions that the modelled statements of \<^verbatim>\<open>tute_demo.py\<close> can raise.
  \<open>PatternOutsideModel\<close> is not a Python exception: it marks a regular expression
  outside the fragment of \<^verbatim>\<open>re\<close> that this development gives a meaning to (see
  \<open>compile_pattern\<close>); for such a pattern the model makes no statement.
\<close>

datatype pyexn =
    ValueError
  | AttributeError
  | TypeError
  | KeyError
  | UnboundLocalError
  | ZeroDivisionError
  | PatternOutsideModel

text \<open>
  The Python objects that travel through the program: what \<^verbatim>\<open>json\<close> decodes to, what
  a csv field holds and what \<^verbatim>\<open>comm.recv\<close> may hand to a worker. A \<^verbatim>\<open>dict\<close> is an
  association list in insertion order.
\<close>

datatype pyval =
    PNone
  | PBool bool
  | PInt int
  | PStr string
  | PList "pyval list"
  | PDict "(string \<times> pyval) list"

fun starts_with :: "string \<Rightarrow> string \<Rightarrow> bool" where
  "starts_with [] ys = True"
| "starts_with (x # xs) [] = False"
| "starts_with (x # xs) (y # ys) = (x = y \<and> starts_with xs ys)"

text \<open>\<^verbatim>\<open>a in b\<close> for two \<^verbatim>\<open>str\<close>: \<open>a\<close> occurs in \<open>b\<close> as a contiguous run of characters.\<close>

fun py_in :: "string \<Rightarrow> string \<Rightarrow> bool" where
  "py_in xs [] = (xs = [])"
| "py_in xs (y # ys) = (starts_with xs (y # ys) \<or> py_in xs ys)"

section \<open>CountTable: a \<^verbatim>\<open>dict\<close> from \<^verbatim>\<open>str\<close> to \<^verbatim>\<open>int\<close>\<close>

type_synonym counts = "(string \<times> int) list"

text \<open>\<^verbatim>\<open>d.get(k, 0)\<close>: the count stored under \<open>k\<close>, 0 when the key is absent.\<close>

definition count_of :: "counts \<Rightarrow> string \<Rightarrow> int" where
  "count_of d k = (case map_of d k of None \<Rightarrow> 0 | Some n \<Rightarrow> n)"

definition keys :: "counts \<Rightarrow> string set" where
  "keys d = fst ` set d"

text \<open>A Python \<^verbatim>\<open>dict\<close> holds every key once.\<close>

definition is_dict :: "counts \<Rightarrow> bool" where
  "is_dict d = distinct (map fst d)"

text \<open>
  The statement \<^verbatim>\<open>counts[k] = counts.setdefault(k, 0) + v\<close> (lines 24, 144 and 194):
  a key already present keeps its place and has \<open>v\<close> added, a new key is appended
  with \<open>0 + v\<close>.
\<close>

fun setdefault_add :: "counts \<Rightarrow> string \<Rightarrow> int \<Rightarrow> counts" where
  "setdefault_add [] k v = [(k, 0 + v)]"
| "setdefault_add ((k', n) # rest) k v =
     (if k' = k then (k', n + v) # rest else (k', n) # setdefault_add rest k v)"

text \<open>
  The merge loop \<^verbatim>\<open>for k, v in d.items(): counts[k] = counts.setdefault(k, 0) + v\<close>
  of \<^verbatim>\<open>process_tweet\<close> (lines 143-144) and of \<^verbatim>\<open>master_tweet_processor\<close>
  (lines 193-194), run over the items of \<open>d\<close> in their order.
\<close>

definition merge :: "counts \<Rightarrow> counts \<Rightarrow> counts" where
  "merge a d = fold (\<lambda>(k, v) c. setdefault_add c k v) d a"

section \<open>The fragment of \<^verbatim>\<open>re\<close> that the counting patterns need\<close>

text \<open>
  \<^verbatim>\<open>re.findall\<close> belongs to Python's standard library. It is given a meaning here for
  patterns that are a sequence of items \<open>x\<close>, \<open>x+\<close> and \<^verbatim>\<open>\b\<close>, where \<open>x\<close> is a literal
  character or \<^verbatim>\<open>\w\<close>: this covers \<^verbatim>\<open>TOPIC_REGEX\<close>, \<^verbatim>\<open>MENTION_REGEX\<close> and the
  pattern that \<^verbatim>\<open>process_tweet\<close> builds around a query made of such items. A
  character of a \<^verbatim>\<open>str\<close> stands for a code point below 256. On these, the word class
  \<^verbatim>\<open>\w\<close> of a \<^verbatim>\<open>str\<close> pattern holds the underscore and the code points that
  \<^verbatim>\<open>str.isalnum\<close> accepts: the ASCII letters and digits, the letters of the Latin-1 range
  (170, 181, 186, 192 to 214, 216 to 246, 248 to 255) and its digits and fractions
  (178, 179, 185, 188 to 190).
\<close>

definition backslash :: char where
  "backslash = CHR 0x5C"

definition is_word :: "char \<Rightarrow> bool" where
  "is_word c =
     (let n = (of_char c :: nat) in
        48 \<le> n \<and> n \<le> 57 \<or> 65 \<le> n \<and> n \<le> 90 \<or> n = 95 \<or> 97 \<le> n \<and> n \<le> 122
        \<or> n = 170 \<or> n = 178 \<or> n = 179 \<or> n = 181 \<or> n = 185 \<or> n = 186
        \<or> 188 \<le> n \<and> n \<le> 190 \<or> 192 \<le> n \<and> n \<le> 214 \<or> 216 \<le> n \<and> n \<le> 246
        \<or> 248 \<le> n)"

text \<open>The characters with a special meaning in a pattern; every other character stands for itself.\<close>

definition is_special :: "char \<Rightarrow> bool" where
  "is_special c = (c = backslash \<or> c \<in> set ''.^$*+?{}[]|()'')"

datatype atom = Lit char | WordChar

datatype item = One atom | Plus atom | Boundary

fun compile_pattern :: "string \<Rightarrow> item list option" where
  "compile_pattern [] = Some []"
| "compile_pattern (c # cs) =
     (if c = backslash then
        (case cs of
           [] \<Rightarrow> None
         | e # r \<Rightarrow>
             if e = CHR ''b'' then map_option (Cons Boundary) (compile_pattern r)
             else if e = CHR ''w'' then
               (case r of
                  [] \<Rightarrow> Some [One WordChar]
                | q # r' \<Rightarrow>
                    if q = CHR ''+'' then map_option (Cons (Plus WordChar)) (compile_pattern r')
                    else map_option (Cons (One WordChar)) (compile_pattern (q # r')))
             else None)
      else if is_special c then None
      else
        (case cs of
           [] \<Rightarrow> Some [One (Lit c)]
         | q # r \<Rightarrow>
             if q = CHR ''+'' then map_option (Cons (Plus (Lit c))) (compile_pattern r)
             else map_option (Cons (One (Lit c))) (compile_pattern (q # r))))"

fun atom_ok :: "atom \<Rightarrow> char \<Rightarrow> bool" where
  "atom_ok (Lit a) c = (a = c)"
| "atom_ok WordChar c = is_word c"

text \<open>
  \<^verbatim>\<open>\b\<close> holds between a word character and a non-word character, the two ends of the
  text counting as non-word. \<open>prev\<close> is the character before the position, if any.
\<close>

definition at_boundary :: "char option \<Rightarrow> string \<Rightarrow> bool" where
  "at_boundary prev s =
     ((case prev of None \<Rightarrow> False | Some c \<Rightarrow> is_word c)
        \<noteq> (case s of [] \<Rightarrow> False | c # _ \<Rightarrow> is_word c))"

text \<open>
  The text that the pattern matches at the start of \<open>s\<close>, found by backtracking: \<open>x+\<close>
  is greedy, it takes one more character before it tries the rest of the pattern.
\<close>

fun match_here :: "item list \<Rightarrow> char option \<Rightarrow> string \<Rightarrow> string option" where
  "match_here [] prev s = Some []"
| "match_here (Boundary # ps) prev s =
     (if at_boundary prev s then match_here ps prev s else None)"
| "match_here (One a # ps) prev [] = None"
| "match_here (One a # ps) prev (c # cs) =
     (if atom_ok a c then map_option (Cons c) (match_here ps (Some c) cs) else None)"
| "match_here (Plus a # ps) prev [] = None"
| "match_here (Plus a # ps) prev (c # cs) =
     (if atom_ok a c then
        (case match_here (Plus a # ps) (Some c) cs of
           Some m \<Rightarrow> Some (c # m)
         | None \<Rightarrow> map_option (Cons c) (match_here ps (Some c) cs))
      else None)"

text \<open>
  The scan of \<^verbatim>\<open>findall\<close>: the leftmost match, then the next one from where it ended
  (\<open>skip\<close> counts the characters of a match still to pass over); after an empty match
  the scan moves on by one character.
\<close>

fun find_from :: "item list \<Rightarrow> char option \<Rightarrow> string \<Rightarrow> nat \<Rightarrow> string list" where
  "find_from ps prev [] skip =
     (if skip = 0 then (case match_here ps prev [] of Some m \<Rightarrow> [m] | None \<Rightarrow> []) else [])"
| "find_from ps prev (c # cs) skip =
     (if 0 < skip then find_from ps (Some c) cs (skip - 1)
      else
        (case match_here ps prev (c # cs) of
           Some m \<Rightarrow> m # find_from ps (Some c) cs (length m - 1)
         | None \<Rightarrow> find_from ps (Some c) cs 0))"

text \<open>
  \<^verbatim>\<open>re.findall(pattern, string)\<close>: the pattern is compiled first, then a \<open>string\<close> that
  is not a \<^verbatim>\<open>str\<close> raises TypeError. On a pattern outside the fragment the library
  returns its matches or raises \<^verbatim>\<open>re.error\<close>; here the result is the marker
  \<open>PatternOutsideModel\<close>, and no statement below is about such a pattern.
\<close>

definition re_findall :: "string \<Rightarrow> pyval \<Rightarrow> pyexn + string list" where
  "re_findall pattern string =
     (case compile_pattern pattern of
        None \<Rightarrow> Inl PatternOutsideModel
      | Some ps \<Rightarrow>
          (case string of
             PStr s \<Rightarrow> Inr (find_from ps None s 0)
           | _ \<Rightarrow> Inl TypeError))"

section \<open>Counting one tweet\<close>

definition TOPIC_REGEX :: string where
  "TOPIC_REGEX = [CHR ''#'', backslash, CHR ''w'', CHR ''+'']"

definition MENTION_REGEX :: string where
  "MENTION_REGEX = [CHR ''@'', backslash, CHR ''w'', CHR ''+'']"

definition MASTER_RANK :: nat where
  "MASTER_RANK = 0"

text \<open>\<^verbatim>\<open>tweet['text']\<close>: only a \<^verbatim>\<open>dict\<close> can be indexed by a \<^verbatim>\<open>str\<close>.\<close>

fun text_of :: "pyval \<Rightarrow> pyexn + pyval" where
  "text_of (PDict kv) = (case map_of kv ''text'' of None \<Rightarrow> Inl KeyError | Some v \<Rightarrow> Inr v)"
| "text_of _ = Inl TypeError"

text \<open>The loop of \<^verbatim>\<open>count_regex\<close> (lines 23-24) over the list that \<^verbatim>\<open>findall\<close> returned.\<close>

definition tally :: "string list \<Rightarrow> counts" where
  "tally occurrences = fold (\<lambda>occurrence counts. setdefault_add counts occurrence 1) occurrences []"

definition count_regex :: "pyval \<Rightarrow> string \<Rightarrow> pyexn + counts" where
  "count_regex tweet regex =
     (case text_of tweet of
        Inl e \<Rightarrow> Inl e
      | Inr text \<Rightarrow>
          (case re_findall regex text of
             Inl e \<Rightarrow> Inl e
           | Inr occurrences \<Rightarrow> Inr (tally occurrences)))"

definition trending_topics :: "pyval \<Rightarrow> pyexn + counts" where
  "trending_topics tweet = count_regex tweet TOPIC_REGEX"

definition user_mentions :: "pyval \<Rightarrow> pyexn + counts" where
  "user_mentions tweet = count_regex tweet MENTION_REGEX"

text \<open>
  The \<^verbatim>\<open>if/elif\<close> chain of \<^verbatim>\<open>process_tweet\<close> (lines 135-141). Each test is \<^verbatim>\<open>stype in '...'\<close>,
  a substring test. When no branch is taken \<^verbatim>\<open>results\<close> is never assigned, and line 143
  raises UnboundLocalError.
\<close>

definition select_results :: "string \<Rightarrow> string \<Rightarrow> pyval \<Rightarrow> pyexn + counts" where
  "select_results stype squery tweet =
     (if py_in stype ''mentions'' then user_mentions tweet
      else if py_in stype ''topic'' then trending_topics tweet
      else if py_in stype ''string_search'' then
        count_regex tweet ([backslash, CHR ''b''] @ squery @ [backslash, CHR ''b''])
      else Inl UnboundLocalError)"

definition process_tweet :: "counts \<Rightarrow> string \<Rightarrow> string \<Rightarrow> pyval \<Rightarrow> pyexn + counts" where
  "process_tweet counts stype squery tweet =
     (case select_results stype squery tweet of
        Inl e \<Rightarrow> Inl e
      | Inr results \<Rightarrow> Inr (merge counts results))"

section \<open>Decoding a payload: \<^verbatim>\<open>tweet_to_json\<close>\<close>

text \<open>
  \<^verbatim>\<open>re.sub\<close> with a pattern that cannot match the empty string: \<open>m\<close> gives the length of
  the match at the start of a text, if there is one; each leftmost match is replaced by
  \<open>repl\<close> and the scan goes on behind it.
\<close>

fun sub_from :: "(string \<Rightarrow> nat option) \<Rightarrow> string \<Rightarrow> string \<Rightarrow> nat \<Rightarrow> string" where
  "sub_from m repl [] skip = []"
| "sub_from m repl (c # cs) skip =
     (if 0 < skip then sub_from m repl cs (skip - 1)
      else
        (case m (c # cs) of
           Some n \<Rightarrow> repl @ sub_from m repl cs (n - 1)
         | None \<Rightarrow> c # sub_from m repl cs 0))"

text \<open>The tail \<^verbatim>\<open>/*?</a>"\<close> of the first pattern: a run of slashes, then the closing tag and the quote.\<close>

definition tail_len :: "string \<Rightarrow> nat option" where
  \<open>tail_len s =
     (if starts_with ''</a>"'' (dropWhile (\<lambda>c. c = CHR ''/'') s)
      then Some (length (takeWhile (\<lambda>c. c = CHR ''/'') s) + 5) else None)\<close>

text \<open>\<^verbatim>\<open>.*?>\<close> and the tail: the shortest run of characters other than the newline that the rest can follow.\<close>

fun lazy_len :: "string \<Rightarrow> nat option" where
  "lazy_len [] = None"
| "lazy_len (c # cs) =
     (case (if c = CHR ''>'' then tail_len cs else None) of
        Some n \<Rightarrow> Some (1 + n)
      | None \<Rightarrow> if c = CHR 0x0A then None else map_option Suc (lazy_len cs))"

text \<open>The pattern \<^verbatim>\<open>"source":"<a.*?>/*?</a>"\<close> of line 52.\<close>

definition match_source :: "string \<Rightarrow> nat option" where
  \<open>match_source s =
     (if starts_with ''"source":"<a'' s
      then map_option (\<lambda>n. 12 + n) (lazy_len (drop 12 s)) else None)\<close>

text \<open>The pattern \<^verbatim>\<open>(\r|\n)+\<close> of line 53.\<close>

definition match_newlines :: "string \<Rightarrow> nat option" where
  "match_newlines s =
     (case takeWhile (\<lambda>c. c = CHR 0x0D \<or> c = CHR 0x0A) s of
        [] \<Rightarrow> None
      | c # cs \<Rightarrow> Some (Suc (length cs)))"

text \<open>
  \<^verbatim>\<open>json.load(fp)\<close> reads its argument as a file: it starts with \<^verbatim>\<open>fp.read()\<close>. No
  \<^verbatim>\<open>str\<close> has an attribute \<^verbatim>\<open>read\<close>, nor has any other value of \<open>pyval\<close>, so the
  call raises AttributeError before anything is parsed.
\<close>

definition json_load :: "pyval \<Rightarrow> pyexn + pyval" where
  "json_load fp = Inl AttributeError"

text \<open>Lines 52-55. \<^verbatim>\<open>re.sub\<close> raises TypeError on a value that is not a \<^verbatim>\<open>str\<close>.\<close>

fun tweet_to_json :: "pyval \<Rightarrow> pyexn + pyval" where
  \<open>tweet_to_json (PStr tweet) =
     (let tweet1 = sub_from match_source ''"source":""'' tweet 0;
          tweet2 = sub_from match_newlines [] tweet1 0
      in json_load (PStr tweet2))\<close>
| "tweet_to_json _ = Inl TypeError"

section \<open>Counting a partition: \<^verbatim>\<open>process_tweets\<close>\<close>

text \<open>
  A row of \<^verbatim>\<open>csv.DictReader\<close> maps each field name to a \<^verbatim>\<open>str\<close>, or to \<^verbatim>\<open>None\<close> when
  the line is too short. The reader yields rows until the file ends or until a line
  it cannot read makes it raise \<^verbatim>\<open>csv.Error\<close> (\<open>BadLine\<close>).
\<close>

type_synonym row = "(string \<times> string option) list"

datatype csv_item = Row row | BadLine

datatype diag =
    Malformed_JSON nat
  | Could_not_read_csv
  | Sending_back nat nat

text \<open>\<^verbatim>\<open>line['value']\<close>.\<close>

definition row_value :: "row \<Rightarrow> pyexn + pyval" where
  "row_value line =
     (case map_of line ''value'' of
        None \<Rightarrow> Inl KeyError
      | Some None \<Rightarrow> Inr PNone
      | Some (Some s) \<Rightarrow> Inr (PStr s))"

text \<open>
  The loop of lines 155-162, with its local state: the index \<open>i\<close>, the variable
  \<^verbatim>\<open>tweet\<close> (\<open>None\<close> while it is unbound), the table and what was printed. The \<^verbatim>\<open>try\<close>
  of line 158 stands beside the \<^verbatim>\<open>if\<close> of line 156, not inside it, so it runs for
  every row, on whatever \<^verbatim>\<open>tweet\<close> holds. Only ValueError is caught there; every other
  exception leaves the function. \<^verbatim>\<open>csv.Error\<close> ends the loop (lines 163-164), and the
  table built so far is returned.
\<close>

fun tweets_loop ::
  "nat \<Rightarrow> nat \<Rightarrow> string \<Rightarrow> string \<Rightarrow> nat \<Rightarrow> csv_item list \<Rightarrow> pyval option \<Rightarrow> counts \<Rightarrow> diag list
     \<Rightarrow> pyexn + counts \<times> diag list" where
  "tweets_loop rank processes stype squery i [] tweet occurrences out = Inr (occurrences, out)"
| "tweets_loop rank processes stype squery i (BadLine # rows) tweet occurrences out =
     Inr (occurrences, out @ [Could_not_read_csv])"
| "tweets_loop rank processes stype squery i (Row line # rows) tweet occurrences out =
     (if processes = 0 then Inl ZeroDivisionError
      else
        (case (if i mod processes = rank then map_sum id Some (row_value line) else Inr tweet) of
           Inl e \<Rightarrow> Inl e
         | Inr None \<Rightarrow> Inl UnboundLocalError
         | Inr (Some t) \<Rightarrow>
             (case tweet_to_json t of
                Inl e \<Rightarrow>
                  if e = ValueError
                  then tweets_loop rank processes stype squery (i + 1) rows (Some t) occurrences
                         (out @ [Malformed_JSON i])
                  else Inl e
              | Inr t' \<Rightarrow>
                  (case process_tweet occurrences stype squery t' of
                     Inl e \<Rightarrow>
                       if e = ValueError
                       then tweets_loop rank processes stype squery (i + 1) rows (Some t') occurrences
                              (out @ [Malformed_JSON i])
                       else Inl e
                   | Inr occurrences' \<Rightarrow>
                       tweets_loop rank processes stype squery (i + 1) rows (Some t') occurrences' out))))"

definition process_tweets ::
  "nat \<Rightarrow> csv_item list \<Rightarrow> nat \<Rightarrow> string \<Rightarrow> string \<Rightarrow> pyexn + counts \<times> diag list" where
  "process_tweets rank input_file processes stype squery =
     tweets_loop rank processes stype squery 0 input_file None [] []"

section \<open>The two roles and their messages\<close>

text \<open>
  What a process does, in program order: \<open>Send payload dest tag\<close> and \<open>Recv source tag\<close>
  for \<^verbatim>\<open>comm.send\<close> and \<^verbatim>\<open>comm.recv\<close> (a \<open>Recv\<close> is recorded when the call is made,
  whether or not it ever returns), \<open>Print\<close> for a line written by \<^verbatim>\<open>print\<close>, and
  \<open>Merge d\<close> for one pass of the Coordinator's merge loop (lines 193-194) over a
  received table \<open>d\<close>.
\<close>

datatype action =
    Send pyval nat nat
  | Recv nat nat
  | Print diag
  | Merge counts

record comm =
  Get_rank :: nat
  Get_size :: nat

text \<open>A CountTable as the Python object that is sent.\<close>

definition table :: "counts \<Rightarrow> pyval" where
  "table d = PDict (map (\<lambda>(k, n). (k, PInt n)) d)"

subsection \<open>The Coordinator\<close>

text \<open>
  \<open>inbox r\<close> is the table that \<^verbatim>\<open>comm.recv(source=r, tag=MASTER_RANK)\<close> returns, \<open>None\<close>
  when no message from rank \<open>r\<close> ever arrives and the call blocks for ever. The second
  loop of \<^verbatim>\<open>marshall_tweet\<close> (lines 176-178) returns the tables received, or \<open>None\<close>
  when it blocks.
\<close>

fun recv_loop :: "(nat \<Rightarrow> counts option) \<Rightarrow> nat list \<Rightarrow> action list \<times> counts list option" where
  "recv_loop inbox [] = ([], Some [])"
| "recv_loop inbox (i # is) =
     (case inbox (i + 1) of
        None \<Rightarrow> ([Recv (i + 1) MASTER_RANK], None)
      | Some d \<Rightarrow>
          (case recv_loop inbox is of
             (acts, r) \<Rightarrow> (Recv (i + 1) MASTER_RANK # acts, map_option (Cons d) r)))"

definition marshall_tweet ::
  "comm \<Rightarrow> (nat \<Rightarrow> counts option) \<Rightarrow> action list \<times> counts list option" where
  "marshall_tweet c inbox =
     (let processes = Get_size c;
          sends = map (\<lambda>i. Send (PStr ''return_data'') (i + 1) (i + 1)) [0..<processes - 1]
      in case recv_loop inbox [0..<processes - 1] of
           (recvs, counts) \<Rightarrow> (sends @ recvs, counts))"

text \<open>
  How \<^verbatim>\<open>master_tweet_processor\<close> ends: it hands the table to \<^verbatim>\<open>print_output\<close>, or an
  exception leaves it, or it waits for ever in a \<^verbatim>\<open>recv\<close>.
\<close>

datatype master_end = Printed counts | Raised pyexn | Blocked

definition master_tweet_processor ::
  "comm \<Rightarrow> (nat \<Rightarrow> counts option) \<Rightarrow> csv_item list \<Rightarrow> string \<Rightarrow> string
     \<Rightarrow> action list \<times> master_end" where
  "master_tweet_processor c inbox input_file stype squery =
     (let rank = Get_rank c; size = Get_size c
      in case process_tweets rank input_file size stype squery of
           Inl e \<Rightarrow> ([], Raised e)
         | Inr (occurrences, out) \<Rightarrow>
             if 1 < size then
               (case marshall_tweet c inbox of
                  (acts, None) \<Rightarrow> (map Print out @ acts, Blocked)
                | (acts, Some counts) \<Rightarrow>
                    (map Print out @ acts @ map Merge counts
                       @ map (\<lambda>i. Send (PStr ''exit'') (i + 1) (i + 1)) [0..<size - 1],
                     Printed (fold (\<lambda>d occurrences. merge occurrences d) counts occurrences)))
             else (map Print out, Printed occurrences))"

subsection \<open>The Worker Agent\<close>

text \<open>
  What one pass of the \<^verbatim>\<open>while True\<close> loop does with the value it received (lines
  221-227): the actions, and whether the loop goes on or the process exits with a
  status.
\<close>

datatype next_step = Continue | Exit int

definition command :: "nat \<Rightarrow> counts \<Rightarrow> pyval \<Rightarrow> action list \<times> next_step" where
  "command rank counts in_comm =
     (case in_comm of
        PStr s \<Rightarrow>
          if py_in s ''return_data'' then
            ([Print (Sending_back rank (length counts)),
              Send (table counts) MASTER_RANK MASTER_RANK], Continue)
          else if py_in s ''exit'' then ([], Exit 0)
          else ([], Continue)
      | _ \<Rightarrow> ([], Continue))"

text \<open>
  How a worker ends: \<^verbatim>\<open>exit\<close> with a status, an exception, or waiting for ever in
  \<^verbatim>\<open>recv\<close> once the messages that reach it are used up.
\<close>

datatype worker_end = Exited int | Failed pyexn | Waiting

text \<open>The loop of lines 218-227 over the values that arrive from rank 0 with tag \<open>rank\<close>.\<close>

fun slave_loop :: "nat \<Rightarrow> counts \<Rightarrow> pyval list \<Rightarrow> action list \<times> worker_end" where
  "slave_loop rank counts [] = ([Recv MASTER_RANK rank], Waiting)"
| "slave_loop rank counts (in_comm # rest) =
     (case command rank counts in_comm of
        (acts, Exit n) \<Rightarrow> (Recv MASTER_RANK rank # acts, Exited n)
      | (acts, Continue) \<Rightarrow>
          (case slave_loop rank counts rest of
             (later, e) \<Rightarrow> (Recv MASTER_RANK rank # acts @ later, e)))"

definition slave_tweet_processor ::
  "comm \<Rightarrow> pyval list \<Rightarrow> csv_item list \<Rightarrow> string \<Rightarrow> string \<Rightarrow> action list \<times> worker_end" where
  "slave_tweet_processor c arriving input_file stype squery =
     (let rank = Get_rank c; size = Get_size c
      in case process_tweets rank input_file size stype squery of
           Inl e \<Rightarrow> ([], Failed e)
         | Inr (counts, out) \<Rightarrow>
             (case slave_loop rank counts arriving of
                (acts, e) \<Rightarrow> (map Print out @ acts, e)))"

subsection \<open>A run of all processes\<close>

text \<open>
  The table that the worker of rank \<open>r\<close> sends back when it is asked: the one its own
  counting pass returned. A worker whose counting pass raised never reaches its loop
  and sends nothing.
\<close>

definition worker_reply :: "nat \<Rightarrow> csv_item list \<Rightarrow> string \<Rightarrow> string \<Rightarrow> nat \<Rightarrow> counts option" where
  "worker_reply processes input_file stype squery r =
     (case process_tweets r input_file processes stype squery of
        Inl e \<Rightarrow> None
      | Inr (counts, out) \<Rightarrow> Some counts)"

text \<open>The outcome of the Coordinator in a run of \<open>processes\<close> processes over one input.\<close>

definition run :: "nat \<Rightarrow> csv_item list \<Rightarrow> string \<Rightarrow> string \<Rightarrow> master_end" where
  "run processes input_file stype squery =
     snd (master_tweet_processor \<lparr>Get_rank = MASTER_RANK, Get_size = processes\<rparr>
            (worker_reply processes input_file stype squery) input_file stype squery)"

subsection \<open>The Coordinator's steps as the claim words them\<close>

text \<open>
  The order that claim C5 gives for \<open>N\<close> processes, where \<open>reply r\<close> is the table of
  rank \<open>r\<close>: \<^verbatim>\<open>return_data\<close> to every rank from 1 to \<open>N - 1\<close>; then, rank by rank, the
  table is received and merged as it arrives; then \<^verbatim>\<open>exit\<close> to every rank. Nothing
  for a single process.
\<close>

definition claimed_coordinator_steps :: "nat \<Rightarrow> (nat \<Rightarrow> counts) \<Rightarrow> action list" where
  "claimed_coordinator_steps N reply =
     (if 1 < N then
        map (\<lambda>r. Send (PStr ''return_data'') r r) [1..<N]
        @ concat (map (\<lambda>r. [Recv r MASTER_RANK, Merge (reply r)]) [1..<N])
        @ map (\<lambda>r. Send (PStr ''exit'') r r) [1..<N]
      else [])"

subsection \<open>The counting modes as the claim words them\<close>




section \<open>Properties of the merge\<close>

lemma map_of_setdefault_add:
  "map_of (setdefault_add c k v) = (map_of c)(k \<mapsto> count_of c k + v)"
  by (induction c k v rule: setdefault_add.induct) (auto simp: count_of_def fun_eq_iff)

lemma keys_setdefault_add: "keys (setdefault_add c k v) = insert k (keys c)"
  by (induction c k v rule: setdefault_add.induct) (auto simp: keys_def)

lemma is_dict_setdefault_add: "is_dict c \<Longrightarrow> is_dict (setdefault_add c k v)"
proof (induction c k v rule: setdefault_add.induct)
  case (1 k v)
  then show ?case by (simp add: is_dict_def)
next
  case (2 k' n rest k v)
  have "fst ` set (setdefault_add rest k v) = insert k (fst ` set rest)"
    using keys_setdefault_add [of rest k v] by (simp add: keys_def)
  with 2 show ?case by (auto simp: is_dict_def)
qed

lemma merge_Nil: "merge a [] = a"
  by (simp add: merge_def)

lemma merge_Cons: "merge a ((k, v) # d) = merge (setdefault_add a k v) d"
  by (simp add: merge_def)

lemma is_dict_merge: "is_dict a \<Longrightarrow> is_dict (merge a d)"
proof (induction d arbitrary: a)
  case Nil
  then show ?case by (simp add: merge_Nil)
next
  case (Cons p d)
  obtain k v where p: "p = (k, v)" by (cases p)
  from Cons show ?case by (simp add: p merge_Cons is_dict_setdefault_add)
qed

lemma keys_merge: "keys (merge a d) = keys a \<union> keys d"
proof (induction d arbitrary: a)
  case Nil
  then show ?case by (simp add: merge_Nil keys_def)
next
  case (Cons p d)
  obtain k v where p: "p = (k, v)" by (cases p)
  have "keys (p # d) = insert k (keys d)" by (simp add: p keys_def)
  with Cons show ?case by (simp add: p merge_Cons keys_setdefault_add)
qed

lemma count_of_setdefault_add:
  "count_of (setdefault_add c k v) k' = (if k' = k then count_of c k + v else count_of c k')"
  by (simp add: count_of_def [of "setdefault_add c k v"] map_of_setdefault_add)
     (simp add: count_of_def)

lemma count_of_absent: "k \<notin> keys d \<Longrightarrow> count_of d k = 0"
  by (auto simp: count_of_def keys_def split: option.splits dest!: map_of_SomeD intro: rev_image_eqI)

lemma count_of_merge:
  "is_dict d \<Longrightarrow> count_of (merge a d) k = count_of a k + count_of d k"
proof (induction d arbitrary: a)
  case Nil
  then show ?case by (simp add: merge_Nil count_of_def)
next
  case (Cons p d)
  obtain k' v where p: "p = (k', v)" by (cases p)
  from Cons.prems have d: "is_dict d" and fresh: "k' \<notin> keys d"
    by (auto simp: p is_dict_def keys_def)
  have step: "count_of (merge a (p # d)) k = count_of (setdefault_add a k' v) k + count_of d k"
    using Cons.IH [OF d] by (simp add: p merge_Cons)
  show ?case
  proof (cases "k = k'")
    case True
    from fresh have "count_of d k' = 0" by (simp add: count_of_absent)
    moreover have "count_of (p # d) k' = v" by (simp add: p count_of_def)
    ultimately show ?thesis using step by (simp add: count_of_setdefault_add True)
  next
    case False
    then have "count_of (p # d) k = count_of d k" by (simp add: p count_of_def)
    with False show ?thesis by (simp add: step count_of_setdefault_add)
  qed
qed

lemma map_of_by_count:
  "map_of d k = (if k \<in> keys d then Some (count_of d k) else None)"
  by (cases "map_of d k")
     (auto simp: keys_def count_of_def map_of_eq_None_iff weak_map_of_SomeI
           dest: map_of_SomeD intro: rev_image_eqI)

lemma map_of_merge:
  "is_dict d \<Longrightarrow>
   map_of (merge a d) k =
     (if k \<in> keys a \<union> keys d then Some (count_of a k + count_of d k) else None)"
  by (simp add: map_of_by_count [of "merge a d"] keys_merge count_of_merge)

section \<open>The merge of two CountTables\<close>

text \<open>
  C3. The merge of two CountTables \<open>A\<close> and \<open>B\<close> maps every key present in either one
  to (count in \<open>A\<close>, default 0) + (count in \<open>B\<close>, default 0) and holds no other key.
  The merge is associative and commutative, and the empty table is its identity:
  \<open>merge (merge A B) C\<close> equals \<open>merge A (merge B C)\<close>, \<open>merge A B\<close> equals
  \<open>merge B A\<close>, both compared key by key as Python compares two \<^verbatim>\<open>dict\<close>s, and
  \<open>merge A {}\<close> is \<open>A\<close>. The tables are Python \<^verbatim>\<open>dict\<close>s: each holds a key once.
\<close>

theorem merge_sums_assoc_comm_identity:
  assumes "is_dict A" and "is_dict B" and "is_dict C"
  shows "map_of (merge A B) k =
           (if k \<in> keys A \<union> keys B then Some (count_of A k + count_of B k) else None)
         \<and> map_of (merge (merge A B) C) = map_of (merge A (merge B C))
         \<and> map_of (merge A B) = map_of (merge B A)
         \<and> merge A [] = A
         \<and> is_dict (merge A B)"
proof -
  have sums: "map_of (merge A B) k =
      (if k \<in> keys A \<union> keys B then Some (count_of A k + count_of B k) else None)"
    using assms(2) by (rule map_of_merge)
  have bc: "is_dict (merge B C)"
    using assms(2) by (rule is_dict_merge)
  have assoc: "map_of (merge (merge A B) C) = map_of (merge A (merge B C))"
  proof
    fix x
    show "map_of (merge (merge A B) C) x = map_of (merge A (merge B C)) x"
      by (simp add: map_of_merge [OF assms(3)] map_of_merge [OF bc] keys_merge
            count_of_merge [OF assms(2)] count_of_merge [OF assms(3)] Un_assoc)
  qed
  have comm: "map_of (merge A B) = map_of (merge B A)"
  proof
    fix x
    show "map_of (merge A B) x = map_of (merge B A) x"
      by (simp add: map_of_merge [OF assms(1)] map_of_merge [OF assms(2)] Un_commute)
  qed
  from sums assoc comm is_dict_merge [OF assms(1)] show ?thesis
    by (simp add: merge_Nil)
qed

theorem merge_sums_assoc_comm_identity_witness:
  "is_dict [(''@a'', 2)] \<and> is_dict [(''@a'', 1), (''@b'', 1)] \<and> is_dict [(''@c'', 3)]
   \<and> map_of (merge [(''@a'', 2)] [(''@a'', 1), (''@b'', 1)]) ''@a'' = Some 3
   \<and> map_of (merge (merge [(''@a'', 2)] [(''@a'', 1), (''@b'', 1)]) [(''@c'', 3)])
       = map_of (merge [(''@a'', 2)] (merge [(''@a'', 1), (''@b'', 1)] [(''@c'', 3)]))
   \<and> map_of (merge [(''@a'', 2)] [(''@a'', 1), (''@b'', 1)])
       = map_of (merge [(''@a'', 1), (''@b'', 1)] [(''@a'', 2)])
   \<and> merge [(''@a'', 2)] [] = [(''@a'', 2)]"
proof -
  have a: "is_dict [(''@a'', 2)]" by (simp add: is_dict_def)
  have b: "is_dict [(''@a'', 1), (''@b'', 1)]" by (simp add: is_dict_def)
  have c: "is_dict [(''@c'', 3)]" by (simp add: is_dict_def)
  have k: "(if ''@a'' \<in> keys [(''@a'', 2)] \<union> keys [(''@a'', 1), (''@b'', 1)]
            then Some (count_of [(''@a'', 2)] ''@a'' + count_of [(''@a'', 1), (''@b'', 1)] ''@a'')
            else None) = Some 3"
    by (simp add: keys_def count_of_def)
  note t = merge_sums_assoc_comm_identity [OF a b c, of "''@a''"]
  from t have "map_of (merge [(''@a'', 2)] [(''@a'', 1), (''@b'', 1)]) ''@a'' =
      (if ''@a'' \<in> keys [(''@a'', 2)] \<union> keys [(''@a'', 1), (''@b'', 1)]
       then Some (count_of [(''@a'', 2)] ''@a'' + count_of [(''@a'', 1), (''@b'', 1)] ''@a'')
       else None)"
    by (rule conjunct1)
  then have sum: "map_of (merge [(''@a'', 2)] [(''@a'', 1), (''@b'', 1)]) ''@a'' = Some 3"
    by (simp only: k)
  from t a b c sum show ?thesis
    by blast
qed

section \<open>Decoding never returns\<close>

lemma tweet_to_json_raises:
  "tweet_to_json t = Inl (case t of PStr s \<Rightarrow> AttributeError | _ \<Rightarrow> TypeError)"
  by (cases t) (simp_all add: json_load_def)

lemma tweet_to_json_not_ValueError: "tweet_to_json t \<noteq> Inl ValueError"
  by (cases t) (simp_all add: json_load_def)

lemma tweet_to_json_not_Inr: "tweet_to_json t \<noteq> Inr v"
  by (cases t) (simp_all add: json_load_def)

lemma row_value_cases:
  "row_value line = Inl KeyError \<or> row_value line = Inr PNone \<or> (\<exists>s. row_value line = Inr (PStr s))"
  by (simp add: row_value_def split: option.splits)

text \<open>
  The first row read by the process of rank 0 ends the counting pass with an exception,
  whatever the row holds and however many processes there are.
\<close>

lemma first_row_rank0:
  "0 < processes \<Longrightarrow>
   tweets_loop 0 processes stype squery 0 (Row line # rows) tweet occurrences out =
     (case row_value line of
        Inl e \<Rightarrow> Inl e
      | Inr t \<Rightarrow> Inl (case t of PStr s \<Rightarrow> AttributeError | _ \<Rightarrow> TypeError))"
  using row_value_cases [of line] by (auto simp: json_load_def)

text \<open>
  The first row read by a process of another rank is not in its partition; the
  variable \<^verbatim>\<open>tweet\<close> is still unbound when line 159 reads it.
\<close>

lemma first_row_other_rank:
  "0 < rank \<Longrightarrow> rank < processes \<Longrightarrow>
   tweets_loop rank processes stype squery 0 (Row line # rows) None occurrences out =
     Inl UnboundLocalError"
  by simp

lemma process_tweets_no_row:
  "process_tweets rank [] processes stype squery = Inr ([], [])"
  "process_tweets rank (BadLine # rows) processes stype squery = Inr ([], [Could_not_read_csv])"
  by (simp_all add: process_tweets_def)

text \<open>A counting pass returns a table only when it has read no row, and the table is then empty.\<close>

lemma process_tweets_returns_iff:
  assumes "0 < processes" and "rank < processes"
  shows "process_tweets rank input_file processes stype squery = Inr (occurrences, out) \<longleftrightarrow>
           occurrences = [] \<and>
           (input_file = [] \<and> out = [] \<or>
            (\<exists>rows. input_file = BadLine # rows) \<and> out = [Could_not_read_csv])"
proof (cases input_file)
  case Nil
  then show ?thesis by (auto simp: process_tweets_no_row)
next
  case (Cons item rows)
  show ?thesis
  proof (cases item)
    case BadLine
    with Cons show ?thesis by (auto simp: process_tweets_no_row)
  next
    case (Row line)
    show ?thesis
    proof (cases "rank = 0")
      case True
      have "process_tweets 0 (Row line # rows) processes stype squery \<noteq> Inr (occurrences, out)"
        unfolding process_tweets_def first_row_rank0 [OF assms(1)]
        by (simp split: sum.splits)
      with Cons Row True show ?thesis by simp
    next
      case False
      then have "process_tweets rank (Row line # rows) processes stype squery = Inl UnboundLocalError"
        unfolding process_tweets_def using assms(2) by (intro first_row_other_rank) simp_all
      with Cons Row show ?thesis by simp
    qed
  qed
qed

text \<open>
  C8. For every string payload, \<^verbatim>\<open>tweet_to_json\<close> raises an exception that is not a
  ValueError: \<^verbatim>\<open>json.load\<close> is applied to a \<^verbatim>\<open>str\<close>, which has no \<^verbatim>\<open>read\<close> method, and
  raises AttributeError. The decoding never returns a parsed record for a string, and in
  \<^verbatim>\<open>process_tweets\<close> the exception passes the ValueError handler and leaves the function:
  this happens at the first row whose payload the process takes (a row whose index is
  the process's rank modulo the number of processes).
\<close>

theorem tweet_to_json_str_raises_AttributeError:
  assumes "0 < processes"
    and "i mod processes = rank"
    and "row_value line = Inr (PStr payload)"
  shows "tweet_to_json (PStr payload) = Inl AttributeError
         \<and> AttributeError \<noteq> ValueError
         \<and> (\<forall>record. tweet_to_json (PStr payload) \<noteq> Inr record)
         \<and> tweets_loop rank processes stype squery i (Row line # rows) tweet occurrences out
             = Inl AttributeError"
  using assms by (auto simp: json_load_def)

theorem tweet_to_json_str_raises_AttributeError_witness:
  \<open>(0::nat) < 1
   \<and> 0 mod 1 = (0::nat) \<and> row_value [(''value'', Some ''{"text":"@a"}'')] = Inr (PStr ''{"text":"@a"}'')
   \<and> tweet_to_json (PStr ''{"text":"@a"}'') = Inl AttributeError
   \<and> process_tweets 0 [Row [(''value'', Some ''{"text":"@a"}'')]] 1 ''mentions'' [] = Inl AttributeError\<close>
proof -
  have p: "(0::nat) < 1" by simp
  have v: \<open>row_value [(''value'', Some ''{"text":"@a"}'')] = Inr (PStr ''{"text":"@a"}'')\<close>
    by (simp add: row_value_def)
  have m: "0 mod 1 = (0::nat)" by simp
  note t = tweet_to_json_str_raises_AttributeError [OF p m v, of "''mentions''" "[]" "[]" None "[]" "[]"]
  from t p m v show ?thesis
    unfolding process_tweets_def by blast
qed

section \<open>The counting pass over a partition\<close>

text \<open>
  C1 (the code departs from the claim). The claim: the process of rank \<open>r\<close> among \<open>N\<close>
  decodes and counts exactly the records whose index \<open>i\<close> has \<open>i mod N = r\<close>, and the
  other records contribute nothing to its table. The code: with two processes, the
  process of rank 1 reads record 0, which is not in its partition, skips the assignment
  of line 157 and still enters the \<^verbatim>\<open>try\<close> of line 158, where \<^verbatim>\<open>tweet\<close> is unbound; the
  pass ends with UnboundLocalError and returns no table, although record 1 is in the
  partition.
\<close>

theorem process_tweets_rank1_unbound_tweet:
  \<open>process_tweets 1
     [Row [(''value'', Some ''{"text":"@a"}'')], Row [(''value'', Some ''{"text":"@b"}'')]]
     2 ''mentions'' [] = Inl UnboundLocalError\<close>
  by (simp add: process_tweets_def)

text \<open>
  C4 (the code departs from the claim). The claim: a record whose payload fails to
  decode is skipped with a diagnostic naming its index, the run goes on, and one
  malformed record is never fatal. The code: in a single process, the payload
  \<^verbatim>\<open>not json\<close> of record 0 makes \<^verbatim>\<open>json.load\<close> raise AttributeError, which the handler
  for ValueError does not catch; the pass ends there, prints no diagnostic and never
  reaches record 1.
\<close>

theorem process_tweets_malformed_record_fatal:
  \<open>process_tweets 0
     [Row [(''value'', Some ''not json'')], Row [(''value'', Some ''{"text":"@a"}'')]]
     1 ''mentions'' [] = Inl AttributeError\<close>
  by (simp add: process_tweets_def json_load_def row_value_def)

section \<open>A run of several processes\<close>

lemma recv_loop_all_arrive:
  "(\<And>i. i \<in> set ranks \<Longrightarrow> inbox (i + 1) = Some (reply (i + 1))) \<Longrightarrow>
   recv_loop inbox ranks =
     (map (\<lambda>i. Recv (i + 1) MASTER_RANK) ranks, Some (map (\<lambda>i. reply (i + 1)) ranks))"
  by (induction ranks) simp_all

lemma fold_merge_empty_tables:
  "fold (\<lambda>d occurrences. merge occurrences d) (map (\<lambda>i. []) ranks) occurrences = occurrences"
  by (induction ranks) (simp_all add: merge_Nil)

lemma worker_reply_no_row:
  assumes "process_tweets 0 input_file processes stype squery = Inr (occurrences, out)"
    and "0 < processes"
  shows "worker_reply processes input_file stype squery r = Some []"
proof -
  from assms have "input_file = [] \<or> (\<exists>rows. input_file = BadLine # rows)"
    by (auto simp: process_tweets_returns_iff)
  then show ?thesis
    by (auto simp: worker_reply_def process_tweets_no_row)
qed

lemma marshall_tweet_all_arrive:
  assumes "\<And>i. i < Get_size c - 1 \<Longrightarrow> inbox (i + 1) = Some (reply (i + 1))"
  shows "marshall_tweet c inbox =
           (map (\<lambda>i. Send (PStr ''return_data'') (i + 1) (i + 1)) [0..<Get_size c - 1]
              @ map (\<lambda>i. Recv (i + 1) MASTER_RANK) [0..<Get_size c - 1],
            Some (map (\<lambda>i. reply (i + 1)) [0..<Get_size c - 1]))"
proof -
  have "recv_loop inbox [0..<Get_size c - 1] =
          (map (\<lambda>i. Recv (i + 1) MASTER_RANK) [0..<Get_size c - 1],
           Some (map (\<lambda>i. reply (i + 1)) [0..<Get_size c - 1]))"
    using assms by (intro recv_loop_all_arrive) simp
  then show ?thesis
    by (simp add: marshall_tweet_def Let_def)
qed

lemma run_by_own_pass:
  assumes "0 < processes"
  shows "run processes input_file stype squery =
           (case process_tweets 0 input_file processes stype squery of
              Inl e \<Rightarrow> Raised e
            | Inr (occurrences, out) \<Rightarrow> Printed occurrences)"
proof (cases "process_tweets 0 input_file processes stype squery")
  case (Inl e)
  then show ?thesis
    by (simp add: run_def master_tweet_processor_def MASTER_RANK_def)
next
  case (Inr res)
  obtain occurrences out where res: "res = (occurrences, out)" by (cases res)
  have own: "process_tweets 0 input_file processes stype squery = Inr (occurrences, out)"
    using Inr res by simp
  then have own': "process_tweets MASTER_RANK input_file processes stype squery = Inr (occurrences, out)"
    by (simp add: MASTER_RANK_def)
  have m: "marshall_tweet \<lparr>Get_rank = MASTER_RANK, Get_size = processes\<rparr>
             (worker_reply processes input_file stype squery) =
           (map (\<lambda>i. Send (PStr ''return_data'') (i + 1) (i + 1)) [0..<processes - 1]
              @ map (\<lambda>i. Recv (i + 1) MASTER_RANK) [0..<processes - 1],
            Some (map (\<lambda>i. []) [0..<processes - 1]))"
    using marshall_tweet_all_arrive
      [of "\<lparr>Get_rank = MASTER_RANK, Get_size = processes\<rparr>"
          "worker_reply processes input_file stype squery" "\<lambda>r. []"]
    by (simp add: worker_reply_no_row [OF own assms])
  have "run processes input_file stype squery = Printed occurrences"
    by (simp add: run_def master_tweet_processor_def own' m fold_merge_empty_tables)
  with own show ?thesis by simp
qed

text \<open>
  The Coordinator reaches \<^verbatim>\<open>print_output\<close> only on an input from which no row is read,
  and the table is then empty.
\<close>

lemma run_Printed_only_without_rows:
  assumes "0 < processes" and "run processes input_file stype squery = Printed t"
  shows "t = [] \<and> (input_file = [] \<or> (\<exists>rows. input_file = BadLine # rows))"
proof -
  from assms obtain out where
    "process_tweets 0 input_file processes stype squery = Inr (t, out)"
    by (auto simp: run_by_own_pass split: sum.splits)
  with assms(1) show ?thesis
    by (auto simp: process_tweets_returns_iff)
qed

text \<open>
  C2 (the code departs from the claim). The claim: for every input and every number
  \<open>N > 1\<close> of processes, the table that the Coordinator holds after merging the tables
  of all workers is, key by key, the table of a run of a single process over the same
  input. The code: on four records that mention \<^verbatim>\<open>@a\<close>, \<^verbatim>\<open>@a\<close>, \<^verbatim>\<open>@b\<close> and \<^verbatim>\<open>@c\<close>, in
  mode \<^verbatim>\<open>mentions\<close> and with two processes, the Coordinator's own counting pass raises
  AttributeError at record 0, before any message is sent, and the worker of rank 1
  has no table to send; the run of a single process raises as well. No run holds a
  table.
\<close>

theorem scenario_B_coordinator_holds_no_table:
  \<open>run 2 [Row [(''value'', Some ''{"text":"@a"}'')], Row [(''value'', Some ''{"text":"@a"}'')],
           Row [(''value'', Some ''{"text":"@b"}'')], Row [(''value'', Some ''{"text":"@c"}'')]]
       ''mentions'' [] = Raised AttributeError
   \<and> run 1 [Row [(''value'', Some ''{"text":"@a"}'')], Row [(''value'', Some ''{"text":"@a"}'')],
           Row [(''value'', Some ''{"text":"@b"}'')], Row [(''value'', Some ''{"text":"@c"}'')]]
       ''mentions'' [] = Raised AttributeError
   \<and> worker_reply 2 [Row [(''value'', Some ''{"text":"@a"}'')], Row [(''value'', Some ''{"text":"@a"}'')],
           Row [(''value'', Some ''{"text":"@b"}'')], Row [(''value'', Some ''{"text":"@c"}'')]]
       ''mentions'' [] 1 = None\<close>
  by (simp add: run_def master_tweet_processor_def worker_reply_def process_tweets_def
        MASTER_RANK_def json_load_def row_value_def)

section \<open>The Coordinator's protocol\<close>


lemma map_ranks: "map (\<lambda>i. f (i + 1)) [0..<n - 1] = map f [1..<n]"
proof (cases n)
  case 0
  then show ?thesis by simp
next
  case (Suc m)
  have "map f [1..<Suc m] = map f (map Suc [0..<m])"
    by (simp only: map_Suc_upt One_nat_def)
  with Suc show ?thesis by (simp add: comp_def)
qed

lemma master_tweet_processor_steps:
  assumes own: "process_tweets MASTER_RANK input_file N stype squery = Inr (occurrences, out)"
    and arrive: "\<forall>r. 1 \<le> r \<and> r < N \<longrightarrow> inbox r = Some (reply r)"
  shows "master_tweet_processor \<lparr>Get_rank = MASTER_RANK, Get_size = N\<rparr> inbox input_file stype squery =
           (map Print out
              @ map (\<lambda>r. Send (PStr ''return_data'') r r) [1..<N]
              @ map (\<lambda>r. Recv r MASTER_RANK) [1..<N]
              @ map Merge (map reply [1..<N])
              @ map (\<lambda>r. Send (PStr ''exit'') r r) [1..<N],
            Printed (fold (\<lambda>d occurrences. merge occurrences d) (map reply [1..<N]) occurrences))"
proof (cases "1 < N")
  case False
  then have "[1..<N] = []" by simp
  with False own show ?thesis
    by (simp add: master_tweet_processor_def)
next
  case True
  have "marshall_tweet \<lparr>Get_rank = MASTER_RANK, Get_size = N\<rparr> inbox =
          (map (\<lambda>i. Send (PStr ''return_data'') (i + 1) (i + 1)) [0..<N - 1]
             @ map (\<lambda>i. Recv (i + 1) MASTER_RANK) [0..<N - 1],
           Some (map (\<lambda>i. reply (i + 1)) [0..<N - 1]))"
    using arrive
      marshall_tweet_all_arrive [of "\<lparr>Get_rank = MASTER_RANK, Get_size = N\<rparr>" inbox reply]
    by simp
  then have m: "marshall_tweet \<lparr>Get_rank = MASTER_RANK, Get_size = N\<rparr> inbox =
          (map (\<lambda>r. Send (PStr ''return_data'') r r) [1..<N] @ map (\<lambda>r. Recv r MASTER_RANK) [1..<N],
           Some (map reply [1..<N]))"
    by (simp only: map_ranks [of "\<lambda>r. Send (PStr ''return_data'') r r" N]
          map_ranks [of "\<lambda>r. Recv r MASTER_RANK" N] map_ranks [of reply N])
  have e: "map (\<lambda>i. Send (PStr ''exit'') (i + 1) (i + 1)) [0..<N - 1] =
           map (\<lambda>r. Send (PStr ''exit'') r r) [1..<N]"
    by (rule map_ranks)
  from True own show ?thesis
    by (simp add: master_tweet_processor_def m e [simplified])
qed

text \<open>
  C5, as the claim words it, fails for three processes: the Coordinator receives the
  table of rank 2 before it merges the table of rank 1.
\<close>

theorem coordinator_merges_after_all_receives:
  "fst (master_tweet_processor \<lparr>Get_rank = 0, Get_size = 3\<rparr> (\<lambda>r. Some [(''@a'', 1)])
          [] ''mentions'' [])
     \<noteq> claimed_coordinator_steps 3 (\<lambda>r. [(''@a'', 1)])"
  by (simp add: master_tweet_processor_def marshall_tweet_def process_tweets_def
        claimed_coordinator_steps_def MASTER_RANK_def upt_conv_Cons)

text \<open>
  C5, amended. Once its own counting pass has returned, and when every worker's table
  arrives, the Coordinator of \<open>N > 1\<close> processes acts in this order: it sends
  \<^verbatim>\<open>return_data\<close> to every rank from 1 to \<open>N - 1\<close>, each with the rank as tag, before it
  awaits any response; it then receives the tables in the order of the ranks 1 to
  \<open>N - 1\<close>, each with tag 0; only after the last table has been received does it merge
  them, in the same order; it then sends \<^verbatim>\<open>exit\<close> to every rank from 1 to \<open>N - 1\<close>. With
  a single process it sends and receives nothing.
\<close>

theorem coordinator_steps_in_order:
  assumes "process_tweets MASTER_RANK input_file N stype squery = Inr (occurrences, out)"
    and "\<forall>r. 1 \<le> r \<and> r < N \<longrightarrow> inbox r = Some (reply r)"
  shows "fst (master_tweet_processor \<lparr>Get_rank = MASTER_RANK, Get_size = N\<rparr> inbox input_file stype squery) =
           map Print out
           @ map (\<lambda>r. Send (PStr ''return_data'') r r) [1..<N]
           @ map (\<lambda>r. Recv r MASTER_RANK) [1..<N]
           @ map (\<lambda>r. Merge (reply r)) [1..<N]
           @ map (\<lambda>r. Send (PStr ''exit'') r r) [1..<N]
         \<and> (N = 1 \<longrightarrow>
              fst (master_tweet_processor \<lparr>Get_rank = MASTER_RANK, Get_size = N\<rparr> inbox input_file stype squery) =
                map Print out)
         \<and> MASTER_RANK = 0"
proof (intro conjI impI)
  show steps: "fst (master_tweet_processor \<lparr>Get_rank = MASTER_RANK, Get_size = N\<rparr> inbox input_file stype squery) =
           map Print out
           @ map (\<lambda>r. Send (PStr ''return_data'') r r) [1..<N]
           @ map (\<lambda>r. Recv r MASTER_RANK) [1..<N]
           @ map (\<lambda>r. Merge (reply r)) [1..<N]
           @ map (\<lambda>r. Send (PStr ''exit'') r r) [1..<N]"
    by (simp add: master_tweet_processor_steps [OF assms] comp_def)
  show "fst (master_tweet_processor \<lparr>Get_rank = MASTER_RANK, Get_size = N\<rparr> inbox input_file stype squery) =
                map Print out" if "N = 1"
    unfolding steps using that by simp
  show "MASTER_RANK = 0" by (simp add: MASTER_RANK_def)
qed

theorem coordinator_steps_in_order_witness:
  "process_tweets MASTER_RANK [] 3 ''mentions'' [] = Inr ([], [])
   \<and> (\<lambda>r. Some [(''@a'', int r)]) (1::nat) = Some [(''@a'', 1)]
   \<and> (\<lambda>r. Some [(''@a'', int r)]) (2::nat) = Some [(''@a'', 2)]
   \<and> fst (master_tweet_processor \<lparr>Get_rank = MASTER_RANK, Get_size = 3\<rparr>
            (\<lambda>r. Some [(''@a'', int r)]) [] ''mentions'' []) =
       [Send (PStr ''return_data'') 1 1, Send (PStr ''return_data'') 2 2,
        Recv 1 MASTER_RANK, Recv 2 MASTER_RANK,
        Merge [(''@a'', 1)], Merge [(''@a'', 2)],
        Send (PStr ''exit'') 1 1, Send (PStr ''exit'') 2 2]"
proof -
  have own: "process_tweets MASTER_RANK [] 3 ''mentions'' [] = Inr ([], [])"
    by (simp add: process_tweets_def)
  have arrive: "\<forall>r. 1 \<le> r \<and> r < (3::nat) \<longrightarrow> (\<lambda>r. Some [(''@a'', int r)]) r = Some [(''@a'', int r)]"
    by simp
  from coordinator_steps_in_order [OF own arrive]
  have "fst (master_tweet_processor \<lparr>Get_rank = MASTER_RANK, Get_size = 3\<rparr>
            (\<lambda>r. Some [(''@a'', int r)]) [] ''mentions'' []) =
          map Print []
          @ map (\<lambda>r. Send (PStr ''return_data'') r r) [1..<3]
          @ map (\<lambda>r. Recv r MASTER_RANK) [1..<3]
          @ map (\<lambda>r. Merge [(''@a'', int r)]) [1..<3]
          @ map (\<lambda>r. Send (PStr ''exit'') r r) [1..<3]"
    by (rule conjunct1)
  then have steps: "fst (master_tweet_processor \<lparr>Get_rank = MASTER_RANK, Get_size = 3\<rparr>
            (\<lambda>r. Some [(''@a'', int r)]) [] ''mentions'' []) =
       [Send (PStr ''return_data'') 1 1, Send (PStr ''return_data'') 2 2,
        Recv 1 MASTER_RANK, Recv 2 MASTER_RANK,
        Merge [(''@a'', 1)], Merge [(''@a'', 2)],
        Send (PStr ''exit'') 1 1, Send (PStr ''exit'') 2 2]"
    by (simp add: upt_conv_Cons)
  from own steps show ?thesis
    by simp
qed

section \<open>The Worker Agent's dispatch\<close>



lemma command_return_data:
  "command rank counts (PStr ''return_data'') =
     ([Print (Sending_back rank (length counts)), Send (table counts) MASTER_RANK MASTER_RANK], Continue)"
  by (simp add: command_def)

lemma command_exit: "command rank counts (PStr ''exit'') = ([], Exit 0)"
  by (simp add: command_def)

text \<open>
  C6. A Worker Agent that awaits a command and receives \<^verbatim>\<open>return_data\<close> prints how many
  keys its table holds, sends the table to rank 0 with the tag 0, the Coordinator's rank,
  and awaits the next command. One that receives \<^verbatim>\<open>exit\<close> terminates at once with
  status 0, whatever would arrive later; in particular a worker that receives \<^verbatim>\<open>exit\<close>
  before any \<^verbatim>\<open>return_data\<close> sends no table.
\<close>

theorem worker_answers_return_data_and_exit:
  "slave_loop rank counts (PStr ''return_data'' # arriving) =
     (Recv MASTER_RANK rank
        # Print (Sending_back rank (length counts))
        # Send (table counts) MASTER_RANK MASTER_RANK
        # fst (slave_loop rank counts arriving),
      snd (slave_loop rank counts arriving))
   \<and> slave_loop rank counts (PStr ''exit'' # arriving) = ([Recv MASTER_RANK rank], Exited 0)
   \<and> (\<forall>payload dest tag. Send payload dest tag \<notin> set (fst (slave_loop rank counts (PStr ''exit'' # arriving))))
   \<and> MASTER_RANK = 0"
  by (simp add: command_return_data command_exit split: prod.splits) (simp add: MASTER_RANK_def)

theorem worker_answers_return_data_and_exit_witness:
  "slave_loop 1 [(''@a'', 2)] [PStr ''return_data'', PStr ''exit''] =
     ([Recv 0 1, Print (Sending_back 1 1), Send (PDict [(''@a'', PInt 2)]) 0 0, Recv 0 1], Exited 0)
   \<and> slave_loop 1 [(''@a'', 2)] [PStr ''exit'', PStr ''return_data''] = ([Recv 0 1], Exited 0)"
proof -
  note t = worker_answers_return_data_and_exit [of 1 "[(''@a'', 2)]"]
  have m: "MASTER_RANK = 0" using t [of "[]"] by blast
  have e: "slave_loop 1 [(''@a'', 2)] [PStr ''exit''] = ([Recv 0 1], Exited 0)"
    using t [of "[]"] unfolding m by blast
  have "slave_loop 1 [(''@a'', 2)] [PStr ''return_data'', PStr ''exit''] =
     (Recv 0 1 # Print (Sending_back 1 (length [(''@a'', 2::int)]))
        # Send (table [(''@a'', 2)]) 0 0 # fst (slave_loop 1 [(''@a'', 2)] [PStr ''exit'']),
      snd (slave_loop 1 [(''@a'', 2)] [PStr ''exit'']))"
    using t [of "[PStr ''exit'']"] unfolding m by blast
  then have r: "slave_loop 1 [(''@a'', 2)] [PStr ''return_data'', PStr ''exit''] =
     ([Recv 0 1, Print (Sending_back 1 1), Send (PDict [(''@a'', PInt 2)]) 0 0, Recv 0 1], Exited 0)"
    by (simp only: e fst_conv snd_conv) (simp add: table_def)
  have e': "slave_loop 1 [(''@a'', 2)] [PStr ''exit'', PStr ''return_data''] = ([Recv 0 1], Exited 0)"
    using t [of "[PStr ''return_data'']"] unfolding m by blast
  from r e' show ?thesis by (intro conjI)
qed




text \<open>
  C10. A value that is not a string makes the worker neither fail nor send: the pass of
  the loop does nothing, and the worker goes back to receiving with the same table.
\<close>

theorem worker_ignores_non_string:
  assumes "\<forall>s. in_comm \<noteq> PStr s"
  shows "command rank counts in_comm = ([], Continue)
         \<and> slave_loop rank counts (in_comm # arriving) =
             (Recv MASTER_RANK rank # fst (slave_loop rank counts arriving),
              snd (slave_loop rank counts arriving))"
proof -
  from assms have c: "command rank counts in_comm = ([], Continue)"
    by (cases in_comm) (simp_all add: command_def)
  then show ?thesis by (simp split: prod.splits)
qed

theorem worker_ignores_non_string_witness:
  "command 1 [(''@a'', 2)] (PInt 7) = ([], Continue)
   \<and> slave_loop 1 [(''@a'', 2)] [PInt 7, PNone, PStr ''exit''] =
       ([Recv MASTER_RANK 1, Recv MASTER_RANK 1, Recv MASTER_RANK 1], Exited 0)"
proof -
  have i: "\<forall>s. PInt 7 \<noteq> PStr s" by simp
  have n: "\<forall>s. PNone \<noteq> PStr s" by simp
  have e: "slave_loop 1 [(''@a'', 2)] [PStr ''exit''] = ([Recv MASTER_RANK 1], Exited 0)"
    by (simp add: command_def)
  from worker_ignores_non_string [OF n, of 1 "[(''@a'', 2)]" "[PStr ''exit'']"]
  have s1: "slave_loop 1 [(''@a'', 2)] [PNone, PStr ''exit''] =
      ([Recv MASTER_RANK 1, Recv MASTER_RANK 1], Exited 0)"
    by (simp only: e fst_conv snd_conv)
  from worker_ignores_non_string [OF i, of 1 "[(''@a'', 2)]" "[PNone, PStr ''exit'']"]
  have s2: "command 1 [(''@a'', 2)] (PInt 7) = ([], Continue)
     \<and> slave_loop 1 [(''@a'', 2)] [PInt 7, PNone, PStr ''exit''] =
       ([Recv MASTER_RANK 1, Recv MASTER_RANK 1, Recv MASTER_RANK 1], Exited 0)"
    by (simp only: s1 fst_conv snd_conv)
  then show ?thesis .
qed

section \<open>The counting modes\<close>











lemma match_tagged_Nil: "match_here [One (Lit t), Plus WordChar] prev [] = None"
  by simp


















text \<open>
  The mode \<^verbatim>\<open>topics\<close> reaches no branch of \<^verbatim>\<open>process_tweet\<close>: line 137 tests
  \<^verbatim>\<open>stype in 'topic'\<close>, and \<^verbatim>\<open>topics\<close> is not contained in \<^verbatim>\<open>topic\<close> (\<^verbatim>\<open>print_output\<close> tests
  \<^verbatim>\<open>stype in 'topics'\<close>).
\<close>

lemma process_tweet_topics_unbound:
  "process_tweet counts ''topics'' squery tweet = Inl UnboundLocalError"
  by (simp add: process_tweet_def select_results_def)



end
